theory Spec2Isabelle
  imports Complex_Main "HOL-Library.Multiset"
begin

section \<open>Floating-point numbers\<close>

text \<open>
  The elements of the arrays, and Python's \<^verbatim>\<open>float\<close>, are IEEE 754 double-precision
  numbers (numpy's default \<^verbatim>\<open>float64\<close>): a finite value, an infinity or NaN. The result
  of an operation on finite values is the exact real result rounded to the nearest
  double, ties to the even significand, and an infinity when the rounded value is out
  of range. The two zeros are identified: the sign of a zero never changes a
  comparison, a sum of squares or a product with a nonzero number.
\<close>

datatype double = Fin real | PInf | NInf | NaN

text \<open>Rounding a real to the nearest integer, ties to even.\<close>

definition rne :: "real \<Rightarrow> int" where
  "rne y = (let n = \<lfloor>y\<rfloor>; d = y - of_int n in
     if d < 1 / 2 then n else if 1 / 2 < d then n + 1 else if even n then n else n + 1)"

text \<open>The exponent of the last place of \<open>x\<close>: 53 significant bits, and the exponent of
  the subnormal numbers as the lower bound.\<close>

definition ulp_exponent :: "real \<Rightarrow> int" where
  "ulp_exponent x = max (\<lfloor>log 2 \<bar>x\<bar>\<rfloor> - 52) (- 1074)"

definition overflow_threshold :: real where
  "overflow_threshold = 2 ^ 1024"

definition round_double :: "real \<Rightarrow> double" where
  "round_double x = (if x = 0 then Fin 0 else
     (let q = ulp_exponent x;
          y = of_int (rne (x / 2 powr of_int q)) * 2 powr of_int q
      in if overflow_threshold \<le> \<bar>y\<bar> then (if 0 < x then PInf else NInf) else Fin y))"

text \<open>A real number is a double when rounding leaves it as it is.\<close>

definition is_double :: "real \<Rightarrow> bool" where
  "is_double x = (round_double x = Fin x)"

text \<open>The product of an infinity with a finite number of the given value.\<close>

definition inf_times :: "real \<Rightarrow> double" where
  "inf_times a = (if a = 0 then NaN else if 0 < a then PInf else NInf)"

fun fneg :: "double \<Rightarrow> double" where
  "fneg (Fin a) = Fin (- a)"
| "fneg PInf = NInf"
| "fneg NInf = PInf"
| "fneg NaN = NaN"

fun fadd :: "double \<Rightarrow> double \<Rightarrow> double" where
  "fadd NaN b = NaN"
| "fadd a NaN = NaN"
| "fadd PInf NInf = NaN"
| "fadd NInf PInf = NaN"
| "fadd PInf b = PInf"
| "fadd a PInf = PInf"
| "fadd NInf b = NInf"
| "fadd a NInf = NInf"
| "fadd (Fin a) (Fin b) = round_double (a + b)"

fun fmul :: "double \<Rightarrow> double \<Rightarrow> double" where
  "fmul NaN b = NaN"
| "fmul a NaN = NaN"
| "fmul (Fin a) (Fin b) = round_double (a * b)"
| "fmul (Fin a) PInf = inf_times a"
| "fmul (Fin a) NInf = inf_times (- a)"
| "fmul PInf (Fin b) = inf_times b"
| "fmul NInf (Fin b) = inf_times (- b)"
| "fmul PInf PInf = PInf"
| "fmul NInf NInf = PInf"
| "fmul PInf NInf = NInf"
| "fmul NInf PInf = NInf"

text \<open>Division by a number that is not zero (Python raises on a zero divisor before
  dividing, see \<open>truediv\<close>).\<close>

fun fdiv :: "double \<Rightarrow> double \<Rightarrow> double" where
  "fdiv NaN b = NaN"
| "fdiv a NaN = NaN"
| "fdiv (Fin a) (Fin b) = round_double (a / b)"
| "fdiv (Fin a) PInf = Fin 0"
| "fdiv (Fin a) NInf = Fin 0"
| "fdiv PInf (Fin b) = (if 0 \<le> b then PInf else NInf)"
| "fdiv NInf (Fin b) = (if 0 \<le> b then NInf else PInf)"
| "fdiv PInf PInf = NaN"
| "fdiv NInf NInf = NaN"
| "fdiv PInf NInf = NaN"
| "fdiv NInf PInf = NaN"

text \<open>\<^verbatim>\<open>a > b\<close>: false whenever an operand is NaN.\<close>

fun fgt :: "double \<Rightarrow> double \<Rightarrow> bool" where
  "fgt NaN b = False"
| "fgt a NaN = False"
| "fgt (Fin a) (Fin b) = (b < a)"
| "fgt PInf PInf = False"
| "fgt PInf b = True"
| "fgt a PInf = False"
| "fgt NInf b = False"
| "fgt a NInf = True"

section \<open>Arrays, the store and errors\<close>

text \<open>
  The optimizer of \<^verbatim>\<open>chainer/optimizer.py\<close> keeps references to arrays owned by the
  model and mutates them in place. An array object lives at an address of a store; the
  optimizer holds addresses, and so does a caller that passes arrays to a method. An
  array is a \<^verbatim>\<open>numpy.ndarray\<close> (on the host) or a \<^verbatim>\<open>cuda.GPUArray\<close> (on a numbered
  device). Arrays are one-dimensional here (the code only uses whole-array operations,
  and \<^verbatim>\<open>_sqnorm\<close> flattens with \<^verbatim>\<open>ravel\<close>), with double-precision elements on
  both backends (the source fixes no element type for host arrays; the GPU kernel of
  \<^verbatim>\<open>weight_decay\<close> is declared over single-precision \<^verbatim>\<open>float\<close>, which rounds in the same
  way with fewer bits; every concrete input below whose result depends on rounding is a
  host array).
\<close>

type_synonym addr = nat

datatype device = Host | Gpu nat

record ndarray =
  dev :: device
  data :: "double list"

type_synonym heap = "addr \<Rightarrow> ndarray"

datatype error = AttributeError | NotImplementedError | ValueError | ZeroDivisionError

text \<open>Python's exception hierarchy: \<^verbatim>\<open>ZeroDivisionError\<close> is an \<^verbatim>\<open>ArithmeticError\<close>;
  \<^verbatim>\<open>NotImplementedError\<close> is a \<^verbatim>\<open>RuntimeError\<close>, the others are neither.\<close>

fun is_arithmetic_error :: "error \<Rightarrow> bool" where
  "is_arithmetic_error ZeroDivisionError = True"
| "is_arithmetic_error _ = False"

text \<open>\<^verbatim>\<open>isinstance(x, cuda.GPUArray)\<close> and \<^verbatim>\<open>isinstance(x, numpy.ndarray)\<close>.\<close>

definition is_GPUArray :: "ndarray \<Rightarrow> bool" where
  "is_GPUArray x = (case dev x of Gpu _ \<Rightarrow> True | Host \<Rightarrow> False)"

definition is_numpy_ndarray :: "ndarray \<Rightarrow> bool" where
  "is_numpy_ndarray x = (case dev x of Host \<Rightarrow> True | Gpu _ \<Rightarrow> False)"

subsection \<open>Python's float operations\<close>

text \<open>\<^verbatim>\<open>math.sqrt\<close>: \<^verbatim>\<open>ValueError\<close> on a negative argument, the rounded root
  otherwise; infinity and NaN are returned as they are.\<close>

fun math_sqrt :: "double \<Rightarrow> error + double" where
  "math_sqrt NaN = Inr NaN"
| "math_sqrt PInf = Inr PInf"
| "math_sqrt NInf = Inl ValueError"
| "math_sqrt (Fin x) = (if x < 0 then Inl ValueError else Inr (round_double (sqrt x)))"

text \<open>\<^verbatim>\<open>a / b\<close> on floats: \<^verbatim>\<open>ZeroDivisionError\<close> on a zero divisor.\<close>

definition truediv :: "double \<Rightarrow> double \<Rightarrow> error + double" where
  "truediv a b = (if b = Fin 0 then Inl ZeroDivisionError else Inr (fdiv a b))"

subsection \<open>The array library\<close>

text \<open>The operations of numpy that the optimizer calls. Every element-wise operation
  rounds each element.\<close>

text \<open>\<^verbatim>\<open>x.fill(v)\<close>\<close>
definition fill :: "ndarray \<Rightarrow> double \<Rightarrow> ndarray" where
  "fill x v = x\<lparr>data := replicate (length (data x)) v\<rparr>"

text \<open>\<^verbatim>\<open>x.ravel()\<close>: a one-dimensional array is already flat.\<close>
definition ravel :: "ndarray \<Rightarrow> ndarray" where
  "ravel x = x"

text \<open>\<^verbatim>\<open>x.dot(y)\<close> and \<^verbatim>\<open>cuda.gpuarray.dot(x, y).get()\<close>: the products are accumulated
  in floating point, here from the first element to the last (a library may
  accumulate in another order; the results below that go through \<open>dot\<close> hold for this
  order, and the concrete inputs have sums that are exact in every order).\<close>
definition dot :: "ndarray \<Rightarrow> ndarray \<Rightarrow> double" where
  "dot x y = foldl (\<lambda>acc (a, b). fadd acc (fmul a b)) (Fin 0) (zip (data x) (data y))"

text \<open>\<^verbatim>\<open>g *= ratio\<close> with a scalar.\<close>
definition imul :: "ndarray \<Rightarrow> double \<Rightarrow> ndarray" where
  "imul g r = g\<lparr>data := map (\<lambda>x. fmul x r) (data g)\<rparr>"

text \<open>\<^verbatim>\<open>decay * p\<close>: a new array.\<close>
definition smul :: "double \<Rightarrow> ndarray \<Rightarrow> ndarray" where
  "smul c p = p\<lparr>data := map (\<lambda>x. fmul c x) (data p)\<rparr>"

text \<open>\<^verbatim>\<open>g += x\<close> with numpy arrays: element-wise into \<open>g\<close>, which keeps its place and
  shape. An operand of one element is broadcast over \<open>g\<close>; any other operand of
  another shape raises \<^verbatim>\<open>ValueError\<close>.\<close>
definition iadd :: "ndarray \<Rightarrow> ndarray \<Rightarrow> error + ndarray" where
  "iadd g x =
     (if length (data x) = length (data g)
        then Inr (g\<lparr>data := map2 fadd (data g) (data x)\<rparr>)
      else if length (data x) = 1
        then Inr (g\<lparr>data := map (\<lambda>a. fadd a (hd (data x))) (data g)\<rparr>)
      else Inl ValueError)"

subsection \<open>The GPU array library and device transfers\<close>

text \<open>Modelled from the spec: the helpers \<^verbatim>\<open>cuda.to_cpu\<close>, \<^verbatim>\<open>cuda.to_gpu\<close> and
  \<^verbatim>\<open>cuda.copy\<close> of \<^verbatim>\<open>chainer/cuda.py\<close>, which is not among the sources. The spec:
  "cross-backend transfer as needed (host-to-accelerator, accelerator-to-host, or
  accelerator-to-accelerator with explicit device-to-device copy)"; a transfer moves
  the values unchanged. \<^verbatim>\<open>cuda.using_device\<close> only selects the current device, which
  \<open>to_gpu\<close> takes as its first argument.\<close>

definition to_cpu :: "ndarray \<Rightarrow> ndarray" where
  "to_cpu x = x\<lparr>dev := Host\<rparr>"

definition to_gpu :: "nat \<Rightarrow> ndarray \<Rightarrow> ndarray" where
  "to_gpu cur x = (if is_GPUArray x then x else x\<lparr>dev := Gpu cur\<rparr>)"

definition copy :: "ndarray \<Rightarrow> nat \<Rightarrow> ndarray" where
  "copy x out_device = x\<lparr>dev := Gpu out_device\<rparr>"

text \<open>\<^verbatim>\<open>x.gpudata.device\<close> of a GPU array.\<close>
definition gpudata_device :: "ndarray \<Rightarrow> nat" where
  "gpudata_device x = (case dev x of Gpu d \<Rightarrow> d | Host \<Rightarrow> 0)"

text \<open>Modelled from the spec: \<^verbatim>\<open>g += x\<close> on a \<^verbatim>\<open>cuda.GPUArray\<close> (the GPU array class is
  not among the sources). The spec: "adds each source buffer into the corresponding
  owned gradient buffer in place, value-by-value"; a source of another shape is "a
  programmer error", modelled as \<^verbatim>\<open>ValueError\<close>.\<close>
definition gpu_iadd :: "ndarray \<Rightarrow> ndarray \<Rightarrow> error + ndarray" where
  "gpu_iadd g x =
     (if length (data x) = length (data g)
        then Inr (g\<lparr>data := map2 fadd (data g) (data x)\<rparr>)
      else Inl ValueError)"

section \<open>The optimizer\<close>

text \<open>
  An \<^verbatim>\<open>Optimizer\<close> object has the attributes \<^verbatim>\<open>t\<close> and \<^verbatim>\<open>tuples\<close>, both created by
  \<^verbatim>\<open>setup\<close>: \<open>None\<close> is an attribute the object does not have yet, and reading it
  raises \<^verbatim>\<open>AttributeError\<close>. A tuple is (address of the parameter, address of the
  gradient, state); the state of a tuple is the current content of its state object.
\<close>

record 'st optimizer =
  t :: "int option"
  tuples :: "(addr \<times> addr \<times> 'st) list option"

definition Unconfigured :: "'st optimizer" where
  "Unconfigured = \<lparr>t = None, tuples = None\<rparr>"

definition Ready :: "'st optimizer \<Rightarrow> bool" where
  "Ready self = (t self \<noteq> None \<and> tuples self \<noteq> None)"

text \<open>The methods a subclass overrides. \<^verbatim>\<open>update_one_cpu\<close> and \<^verbatim>\<open>update_one_gpu\<close>
  receive the step counter (read through \<^verbatim>\<open>self.t\<close>), the parameter, the gradient and the
  state; they return the new contents of the parameter and of the state, or raise.\<close>

record 'st hooks =
  init_state_cpu :: "ndarray \<Rightarrow> ndarray \<Rightarrow> 'st"
  init_state_gpu :: "ndarray \<Rightarrow> ndarray \<Rightarrow> 'st"
  update_one_cpu :: "int \<Rightarrow> ndarray \<Rightarrow> ndarray \<Rightarrow> 'st \<Rightarrow> error + ndarray \<times> 'st"
  update_one_gpu :: "int \<Rightarrow> ndarray \<Rightarrow> ndarray \<Rightarrow> 'st \<Rightarrow> error + ndarray \<times> 'st"

text \<open>The base class: no state (\<^verbatim>\<open>None\<close>), and update rules that raise
  \<^verbatim>\<open>NotImplementedError\<close>.\<close>

definition Optimizer :: "unit hooks" where
  "Optimizer = \<lparr>
     init_state_cpu = (\<lambda>param grad. ()),
     init_state_gpu = (\<lambda>param grad. ()),
     update_one_cpu = (\<lambda>n param grad state. Inl NotImplementedError),
     update_one_gpu = (\<lambda>n param grad state. Inl NotImplementedError)\<rparr>"

text \<open>A method returns its value or the exception it raised, together with the object
  and the store as it left them.\<close>

type_synonym ('st, 'a) outcome = "(error + 'a) \<times> 'st optimizer \<times> heap"

definition param_of :: "addr \<times> addr \<times> 'st \<Rightarrow> addr" where
  "param_of tp = fst tp"

definition grad_of :: "addr \<times> addr \<times> 'st \<Rightarrow> addr" where
  "grad_of tp = fst (snd tp)"

subsection \<open>\<^verbatim>\<open>_sqnorm\<close>\<close>

definition sqnorm :: "ndarray \<Rightarrow> double" where
  "sqnorm x = (if is_GPUArray x then dot x x else dot (ravel x) (ravel x))"

subsection \<open>\<^verbatim>\<open>setup\<close> and \<^verbatim>\<open>init_state\<close>\<close>

definition init_state :: "'st hooks \<Rightarrow> ndarray \<Rightarrow> ndarray \<Rightarrow> 'st" where
  "init_state hk param grad =
     (if is_GPUArray param then init_state_gpu hk param grad
      else init_state_cpu hk param grad)"

text \<open>The loop over \<^verbatim>\<open>zip(*params_grads)\<close>, appending to \<^verbatim>\<open>self.tuples\<close>.\<close>

fun setup_loop ::
  "'st hooks \<Rightarrow> heap \<Rightarrow> (addr \<times> addr) list \<Rightarrow> (addr \<times> addr \<times> 'st) list
     \<Rightarrow> (addr \<times> addr \<times> 'st) list" where
  "setup_loop hk h [] acc = acc"
| "setup_loop hk h ((p, g) # pgs) acc =
     setup_loop hk h pgs (acc @ [(p, g, init_state hk (h p) (h g))])"

definition setup' ::
  "'st hooks \<Rightarrow> addr list \<times> addr list \<Rightarrow> 'st optimizer \<Rightarrow> heap \<Rightarrow> ('st, unit) outcome" where
  "setup' hk params_grads self h =
     (let self1 = self\<lparr>t := Some 0\<rparr>;
          self2 = self1\<lparr>tuples := Some []\<rparr>
      in (Inr (),
          self2\<lparr>tuples := Some (setup_loop hk h (zip (fst params_grads) (snd params_grads)) [])\<rparr>,
          h))"

subsection \<open>\<^verbatim>\<open>zero_grads\<close>\<close>

fun zero_grads_loop :: "(addr \<times> addr \<times> 'st) list \<Rightarrow> heap \<Rightarrow> heap" where
  "zero_grads_loop [] h = h"
| "zero_grads_loop ((p, g, s) # ts) h =
     zero_grads_loop ts
       (if is_GPUArray (h g) then h(g := fill (h g) (Fin 0)) else h(g := fill (h g) (Fin 0)))"

definition zero_grads :: "'st optimizer \<Rightarrow> heap \<Rightarrow> ('st, unit) outcome" where
  "zero_grads self h =
     (case tuples self of
        None \<Rightarrow> (Inl AttributeError, self, h)
      | Some ts \<Rightarrow> (Inr (), self, zero_grads_loop ts h))"

subsection \<open>\<^verbatim>\<open>compute_grads_norm\<close>\<close>

text \<open>The loop \<^verbatim>\<open>sqnorm += _sqnorm(g)\<close>; \<open>acc\<close> is \<^verbatim>\<open>sqnorm\<close>, which starts at 0.\<close>

fun sqnorm_loop :: "(addr \<times> addr \<times> 'st) list \<Rightarrow> heap \<Rightarrow> double \<Rightarrow> double" where
  "sqnorm_loop [] h acc = acc"
| "sqnorm_loop ((p, g, s) # ts) h acc = sqnorm_loop ts h (fadd acc (sqnorm (h g)))"

definition compute_grads_norm :: "'st optimizer \<Rightarrow> heap \<Rightarrow> ('st, double) outcome" where
  "compute_grads_norm self h =
     (case tuples self of
        None \<Rightarrow> (Inl AttributeError, self, h)
      | Some ts \<Rightarrow> (math_sqrt (sqnorm_loop ts h (Fin 0)), self, h))"

subsection \<open>\<^verbatim>\<open>clip_grads\<close>\<close>

fun clip_grads_loop :: "(addr \<times> addr \<times> 'st) list \<Rightarrow> double \<Rightarrow> heap \<Rightarrow> heap" where
  "clip_grads_loop [] ratio h = h"
| "clip_grads_loop ((p, g, s) # ts) ratio h = clip_grads_loop ts ratio (h(g := imul (h g) ratio))"

definition clip_grads :: "double \<Rightarrow> 'st optimizer \<Rightarrow> heap \<Rightarrow> ('st, unit) outcome" where
  "clip_grads maxnorm self h =
     (case compute_grads_norm self h of
        (Inl e, self1, h1) \<Rightarrow> (Inl e, self1, h1)
      | (Inr nrm, self1, h1) \<Rightarrow>
          (if fgt nrm maxnorm then
             (case truediv maxnorm nrm of
                Inl e \<Rightarrow> (Inl e, self1, h1)
              | Inr ratio \<Rightarrow>
                  (case tuples self1 of
                     None \<Rightarrow> (Inl AttributeError, self1, h1)
                   | Some ts \<Rightarrow> (Inr (), self1, clip_grads_loop ts ratio h1)))
           else (Inr (), self1, h1)))"

subsection \<open>\<^verbatim>\<open>weight_decay\<close>\<close>

text \<open>Modelled from the spec: the kernel built by \<^verbatim>\<open>cuda.elementwise\<close> from the text
  \<^verbatim>\<open>g[i] += decay * p[i]\<close> (\<^verbatim>\<open>chainer/cuda.py\<close> is not among the sources). The spec:
  "adds \<open>decay * parameter\<close> into the gradient buffer in place"; arrays of different
  sizes are a programmer error, modelled as \<^verbatim>\<open>ValueError\<close>.\<close>

definition weight_decay_kernel :: "ndarray \<Rightarrow> ndarray \<Rightarrow> double \<Rightarrow> error + ndarray" where
  "weight_decay_kernel g p decay = gpu_iadd g (smul decay p)"

fun weight_decay_loop ::
  "(addr \<times> addr \<times> 'st) list \<Rightarrow> double \<Rightarrow> heap \<Rightarrow> error option \<times> heap" where
  "weight_decay_loop [] decay h = (None, h)"
| "weight_decay_loop ((p, g, s) # ts) decay h =
     (case (if is_GPUArray (h p) then weight_decay_kernel (h g) (h p) decay
            else iadd (h g) (smul decay (h p))) of
        Inl e \<Rightarrow> (Some e, h)
      | Inr g' \<Rightarrow> weight_decay_loop ts decay (h(g := g')))"

definition weight_decay :: "double \<Rightarrow> 'st optimizer \<Rightarrow> heap \<Rightarrow> ('st, unit) outcome" where
  "weight_decay decay self h =
     (case tuples self of
        None \<Rightarrow> (Inl AttributeError, self, h)
      | Some ts \<Rightarrow>
          (case weight_decay_loop ts decay h of
             (Some e, h') \<Rightarrow> (Inl e, self, h')
           | (None, h') \<Rightarrow> (Inr (), self, h')))"

subsection \<open>\<^verbatim>\<open>accumulate_grads\<close>\<close>

text \<open>The sources \<^verbatim>\<open>grads\<close> are array objects, given by their addresses: a source is
  read when its turn comes, after the additions made before. \<^verbatim>\<open>zip\<close> stops at the
  shorter of the two sequences.\<close>

fun accumulate_grads_loop ::
  "(addr \<times> addr \<times> 'st) list \<Rightarrow> addr list \<Rightarrow> heap \<Rightarrow> error option \<times> heap" where
  "accumulate_grads_loop [] grads h = (None, h)"
| "accumulate_grads_loop ts [] h = (None, h)"
| "accumulate_grads_loop ((p, g_dst, s) # ts) (g_src # grads) h =
     (case (if is_numpy_ndarray (h g_dst) then iadd (h g_dst) (to_cpu (h g_src))
            else if is_GPUArray (h g_src)
                    \<and> gpudata_device (h g_dst) \<noteq> gpudata_device (h g_src)
              then gpu_iadd (h g_dst) (copy (h g_src) (gpudata_device (h g_src)))
              else gpu_iadd (h g_dst) (to_gpu (gpudata_device (h g_dst)) (h g_src))) of
        Inl e \<Rightarrow> (Some e, h)
      | Inr g' \<Rightarrow> accumulate_grads_loop ts grads (h(g_dst := g')))"

definition accumulate_grads ::
  "addr list \<Rightarrow> 'st optimizer \<Rightarrow> heap \<Rightarrow> ('st, unit) outcome" where
  "accumulate_grads grads self h =
     (case tuples self of
        None \<Rightarrow> (Inl AttributeError, self, h)
      | Some ts \<Rightarrow>
          (case accumulate_grads_loop ts grads h of
             (Some e, h') \<Rightarrow> (Inl e, self, h')
           | (None, h') \<Rightarrow> (Inr (), self, h')))"

subsection \<open>\<^verbatim>\<open>update\<close> and \<^verbatim>\<open>update_one\<close>\<close>

definition update_one ::
  "'st hooks \<Rightarrow> int \<Rightarrow> ndarray \<Rightarrow> ndarray \<Rightarrow> 'st \<Rightarrow> error + ndarray \<times> 'st" where
  "update_one hk n param grad state =
     (if is_GPUArray param then update_one_gpu hk n param grad state
      else update_one_cpu hk n param grad state)"

text \<open>The loop of \<^verbatim>\<open>update\<close>: it stops at the first tuple whose update raises; the
  tuples before it keep their new parameter and state.\<close>

fun update_loop ::
  "'st hooks \<Rightarrow> int \<Rightarrow> (addr \<times> addr \<times> 'st) list \<Rightarrow> heap
     \<Rightarrow> error option \<times> (addr \<times> addr \<times> 'st) list \<times> heap" where
  "update_loop hk n [] h = (None, [], h)"
| "update_loop hk n ((p, g, s) # ts) h =
     (case update_one hk n (h p) (h g) s of
        Inl e \<Rightarrow> (Some e, (p, g, s) # ts, h)
      | Inr (p', s') \<Rightarrow>
          (case update_loop hk n ts (h(p := p')) of
             (r, ts', h') \<Rightarrow> (r, (p, g, s') # ts', h')))"

definition update :: "'st hooks \<Rightarrow> 'st optimizer \<Rightarrow> heap \<Rightarrow> ('st, unit) outcome" where
  "update hk self h =
     (case t self of
        None \<Rightarrow> (Inl AttributeError, self, h)
      | Some n \<Rightarrow>
          (let self1 = self\<lparr>t := Some (n + 1)\<rparr> in
           (case tuples self1 of
              None \<Rightarrow> (Inl AttributeError, self1, h)
            | Some ts \<Rightarrow>
                (case update_loop hk (n + 1) ts h of
                   (Some e, ts', h') \<Rightarrow> (Inl e, self1\<lparr>tuples := Some ts'\<rparr>, h')
                 | (None, ts', h') \<Rightarrow> (Inr (), self1\<lparr>tuples := Some ts'\<rparr>, h')))))"

section \<open>Reference notions\<close>


text \<open>The floating-point sum of the squared norms of the gradients, accumulated from 0
  in the order of the tuples.\<close>

definition sqsum :: "(addr \<times> addr \<times> 'st) list \<Rightarrow> heap \<Rightarrow> double" where
  "sqsum ts h = foldl fadd (Fin 0) (map (\<lambda>tp. dot (h (grad_of tp)) (h (grad_of tp))) ts)"

text \<open>Element-wise floating-point addition of the values \<open>v\<close> into the buffer at \<open>g\<close>, and
  a sequence of such additions carried out one after the other: what the spec calls
  adding each source buffer into the corresponding owned gradient buffer in place.\<close>

definition add_into :: "addr \<Rightarrow> double list \<Rightarrow> heap \<Rightarrow> heap" where
  "add_into g v h = h(g := (h g)\<lparr>data := map2 fadd (data (h g)) v\<rparr>)"

fun add_all :: "(addr \<times> double list) list \<Rightarrow> heap \<Rightarrow> heap" where
  "add_all [] h = h"
| "add_all ((g, v) # us) h = add_all us (add_into g v h)"

section \<open>Concrete inputs\<close>

text \<open>\<^verbatim>\<open>numpy.array([...])\<close> of the given values, and an array on device 0.\<close>

definition np_array :: "real list \<Rightarrow> ndarray" where
  "np_array xs = \<lparr>dev = Host, data = map Fin xs\<rparr>"

definition gpu_array :: "real list \<Rightarrow> ndarray" where
  "gpu_array xs = \<lparr>dev = Gpu 0, data = map Fin xs\<rparr>"

text \<open>A store holding the parameter \<open>[1, 2]\<close> at address 0 and its gradient \<open>[3, 4]\<close> at
  address 1, two sources \<open>[1, 1]\<close> and \<open>[10, 20]\<close> at 2 and 3 and their sum at 4; and the
  base optimizer set up with the one pair.\<close>

definition ex_heap :: heap where
  "ex_heap = (\<lambda>a. np_array [])
     (0 := np_array [1, 2], 1 := np_array [3, 4],
      2 := np_array [1, 1], 3 := gpu_array [10, 20], 4 := np_array [11, 21])"

definition ex_opt :: "unit optimizer" where
  "ex_opt = \<lparr>t = Some 0, tuples = Some [(0, 1, ())]\<rparr>"



text \<open>A subclass without state whose update rule is one step of plain gradient descent,
  \<^verbatim>\<open>param -= grad\<close>, on either backend.\<close>

definition ex_descent :: "unit hooks" where
  "ex_descent = \<lparr>
     init_state_cpu = (\<lambda>param grad. ()),
     init_state_gpu = (\<lambda>param grad. ()),
     update_one_cpu = (\<lambda>n param grad state.
        Inr (param\<lparr>data := map2 (\<lambda>a b. fadd a (fneg b)) (data param) (data grad)\<rparr>, state)),
     update_one_gpu = (\<lambda>n param grad state.
        Inr (param\<lparr>data := map2 (\<lambda>a b. fadd a (fneg b)) (data param) (data grad)\<rparr>, state))\<rparr>"




text \<open>Two doubles: \<open>2 ^ 53\<close>, from where on the doubles are the even integers, and
  \<open>2 ^ 600\<close>, whose square is out of range.\<close>

definition big :: real where
  "big = 2 ^ 53"


text \<open>A parameter \<open>[1]\<close> at address 0 with gradient \<open>[2 ^ 53]\<close> at address 1, sources \<open>[1]\<close>
  and \<open>[1]\<close> at 2 and 3 and their sum \<open>[2]\<close> at 4; and the same with gradient
  \<open>[2 ^ 600]\<close>.\<close>

definition big_heap :: heap where
  "big_heap = (\<lambda>a. np_array [])
     (0 := np_array [1], 1 := np_array [big],
      2 := np_array [1], 3 := np_array [1], 4 := np_array [2])"






text \<open>The pair of \<open>ex_heap\<close> with a source \<open>[1, 1]\<close> at address 2 and, at address 3, the
  sum \<open>[4, 5]\<close> of that source and the gradient \<open>[3, 4]\<close>.\<close>

definition alias_heap :: heap where
  "alias_heap = (\<lambda>a. np_array [])
     (0 := np_array [1, 2], 1 := np_array [3, 4], 2 := np_array [1, 1], 3 := np_array [4, 5])"

section \<open>Properties\<close>

subsection \<open>Rounding\<close>

lemma rne_of_int: "rne (of_int k) = k"
  by (simp add: rne_def)



lemma rne_tie_even:
  assumes "even n"
  shows "rne (of_int n + 1 / 2) = n"
proof -
  have "\<lfloor>real_of_int n + 1 / 2\<rfloor> = n" by (simp add: floor_unique)
  then show ?thesis using assms by (simp add: rne_def Let_def)
qed

lemma below_threshold:
  assumes "\<bar>x\<bar> < 2 ^ 53"
  shows "\<bar>x\<bar> < overflow_threshold"
proof -
  have "(2::real) ^ 53 \<le> 2 ^ 1024" by (rule power_increasing) simp_all
  with assms show ?thesis by (simp only: overflow_threshold_def)
qed

lemma ulp_exponent_le:
  assumes "x \<noteq> 0" and "\<bar>x\<bar> < 2 powr of_int (53 + e)" and "- 1074 \<le> e"
  shows "ulp_exponent x \<le> e"
proof -
  have "log 2 \<bar>x\<bar> < of_int (53 + e)"
    using assms(1,2) by (simp add: log_less_iff)
  then have "\<lfloor>log 2 \<bar>x\<bar>\<rfloor> < 53 + e" by (simp only: floor_less_iff)
  then show ?thesis using assms(3) by (simp add: ulp_exponent_def)
qed

lemma ulp_exponent_eq:
  assumes "2 powr of_int k \<le> \<bar>x\<bar>" and "\<bar>x\<bar> < 2 powr of_int (k + 1)" and "- 1022 \<le> k"
  shows "ulp_exponent x = k - 52"
proof -
  have pos: "0 < \<bar>x\<bar>" using assms(1) by (rule less_le_trans[rotated]) simp
  have "\<lfloor>log 2 \<bar>x\<bar>\<rfloor> = k"
    using assms(1,2) pos by (simp add: floor_log_eq_powr_iff)
  then show ?thesis using assms(3) by (simp add: ulp_exponent_def)
qed

lemma round_double_exact:
  assumes x: "x = of_int m * 2 powr of_int e" and m: "\<bar>m\<bar> < 2 ^ 53"
    and e: "- 1074 \<le> e" and b: "\<bar>x\<bar> < overflow_threshold"
  shows "round_double x = Fin x"
proof (cases "x = 0")
  case True
  then show ?thesis by (simp add: round_double_def)
next
  case False
  define q where "q = ulp_exponent x"
  have "\<bar>x\<bar> = of_int \<bar>m\<bar> * 2 powr of_int e" by (simp add: x abs_mult)
  also have "\<dots> < 2 ^ 53 * 2 powr of_int e"
  proof -
    have "(of_int \<bar>m\<bar> :: real) < of_int (2 ^ 53)" using m by (simp only: of_int_less_iff)
    then show ?thesis by simp
  qed
  also have "\<dots> = 2 powr of_int (53 + e)"
    by (simp add: powr_add powr_realpow[symmetric])
  finally have q: "q \<le> e" unfolding q_def using False e by (intro ulp_exponent_le)
  define k where "k = nat (e - q)"
  have eq: "real_of_int e = of_int q + real k" using q by (simp add: k_def)
  have pw: "2 powr real_of_int e = 2 powr of_int q * 2 ^ k"
    unfolding eq powr_add by (simp add: powr_realpow)
  have pos: "(2::real) powr of_int q \<noteq> 0" by simp
  have "x / 2 powr of_int q = of_int m * 2 ^ k"
    unfolding x pw using pos by simp
  also have "\<dots> = of_int (m * 2 ^ k)" by simp
  finally have r: "rne (x / 2 powr of_int q) = m * 2 ^ k" by (simp only: rne_of_int)
  have v: "of_int (m * 2 ^ k) * 2 powr of_int q = x"
    unfolding x pw by simp
  have "round_double x = (if overflow_threshold \<le> \<bar>real_of_int (m * 2 ^ k) * 2 powr of_int q\<bar>
      then (if 0 < x then PInf else NInf) else Fin (of_int (m * 2 ^ k) * 2 powr of_int q))"
    using False unfolding round_double_def Let_def q_def[symmetric] r by simp
  then show ?thesis unfolding v using b by simp
qed

lemma round_double_int:
  assumes "\<bar>n\<bar> < 2 ^ 53"
  shows "round_double (of_int n) = Fin (of_int n)"
proof (rule round_double_exact[where m = n and e = 0])
  show "real_of_int n = of_int n * 2 powr of_int 0" by simp
  show "\<bar>n\<bar> < 2 ^ 53" by fact
  show "- 1074 \<le> (0::int)" by simp
  have "\<bar>real_of_int n\<bar> = of_int \<bar>n\<bar>" by simp
  also have "\<dots> < of_int (2 ^ 53)" using assms by (simp only: of_int_less_iff)
  finally show "\<bar>real_of_int n\<bar> < overflow_threshold" by (intro below_threshold) simp
qed

lemma round_double_dyadic:
  assumes "\<bar>n\<bar> < 2 ^ 53" and "k \<le> 1074"
  shows "round_double (real_of_int n / 2 ^ k) = Fin (real_of_int n / 2 ^ k)"
proof (rule round_double_exact[where m = n and e = "- int k"])
  show "real_of_int n / 2 ^ k = of_int n * 2 powr of_int (- int k)"
    by (simp add: powr_minus powr_realpow divide_inverse)
  show "\<bar>n\<bar> < 2 ^ 53" by fact
  show "- 1074 \<le> - int k" using assms(2) by simp
  have "(1::real) \<le> 2 ^ k" by (rule one_le_power) simp
  then have "\<bar>real_of_int n\<bar> * 1 \<le> \<bar>real_of_int n\<bar> * 2 ^ k"
    by (intro mult_left_mono) simp_all
  then have "\<bar>real_of_int n / 2 ^ k\<bar> \<le> \<bar>real_of_int n\<bar>"
    by (simp add: abs_divide field_simps)
  also have "\<bar>real_of_int n\<bar> = of_int \<bar>n\<bar>" by simp
  also have "\<dots> < of_int (2 ^ 53)" using assms(1) by (simp only: of_int_less_iff)
  finally show "\<bar>real_of_int n / 2 ^ k\<bar> < overflow_threshold" by (intro below_threshold) simp
qed


text \<open>Small numbers that are doubles.\<close>

lemma round_numeral:
  assumes "(numeral k :: int) < 2 ^ 53"
  shows "round_double (numeral k) = Fin (numeral k)"
  using round_double_int[of "numeral k"] assms by simp

lemma round_one: "round_double 1 = Fin 1"
  using round_double_int[of 1] by simp

lemma round_zero: "round_double 0 = Fin 0"
  by (simp add: round_double_def)

lemma round_half_numeral:
  assumes "(numeral k :: int) < 2 ^ 53"
  shows "round_double (numeral k / 2) = Fin (numeral k / 2)"
  using round_double_dyadic[of "numeral k" 1] assms by simp

lemma round_quarter_numeral:
  assumes "(numeral k :: int) < 2 ^ 53"
  shows "round_double (numeral k / 4) = Fin (numeral k / 4)"
  using round_double_dyadic[of "numeral k" 2] assms by simp

lemma round_half: "round_double (1 / 2) = Fin (1 / 2)"
  using round_double_dyadic[of 1 1] by simp

lemma round_quarter: "round_double (1 / 4) = Fin (1 / 4)"
  using round_double_dyadic[of 1 2] by simp

lemmas round_small = round_zero round_one round_numeral round_half_numeral
  round_quarter_numeral round_half round_quarter

lemma pow2_below_threshold:
  assumes "n < 1024"
  shows "\<bar>(2::real) ^ n\<bar> < overflow_threshold"
proof -
  have a: "\<bar>(2::real) ^ n\<bar> = 2 ^ n" by simp
  show ?thesis unfolding overflow_threshold_def a
    by (rule power_strict_increasing) (use assms in simp_all)
qed

lemma round_double_pow2:
  assumes "n < 1024"
  shows "round_double (2 ^ n) = Fin (2 ^ n)"
proof (rule round_double_exact[where m = 1 and e = "int n"])
  show "(2::real) ^ n = of_int 1 * 2 powr of_int (int n)" by (simp add: powr_realpow)
  show "\<bar>1::int\<bar> < 2 ^ 53" by simp
  show "- 1074 \<le> int n" by simp
  show "\<bar>(2::real) ^ n\<bar> < overflow_threshold" by (rule pow2_below_threshold[OF assms])
qed


lemma big_double: "round_double big = Fin big"
  unfolding big_def by (rule round_double_pow2) simp



lemma round_tie:
  assumes m: "2 ^ 52 \<le> m" "m < 2 ^ 53" and ev: "even m"
  shows "round_double (2 * of_int m + 1) = Fin (2 * of_int m)"
proof -
  let ?x = "2 * real_of_int m + 1"
  have lo: "(2::real) ^ 53 \<le> ?x"
  proof -
    have "real_of_int (2 ^ 52) \<le> of_int m" using m(1) by (simp only: of_int_le_iff)
    then show ?thesis by simp
  qed
  have hi: "?x < 2 ^ 54"
  proof -
    have "m + 1 \<le> 2 ^ 53" using m(2) by simp
    then have "real_of_int (m + 1) \<le> of_int (2 ^ 53)" by (simp only: of_int_le_iff)
    then show ?thesis by simp
  qed
  have pos: "0 < ?x" using lo by (rule less_le_trans[rotated]) simp
  have q: "ulp_exponent ?x = 53 - 52"
  proof (rule ulp_exponent_eq)
    show "2 powr real_of_int 53 \<le> \<bar>?x\<bar>" using lo pos by simp
    show "\<bar>?x\<bar> < 2 powr real_of_int (53 + 1)" using hi pos by simp
    show "- 1022 \<le> (53::int)" by simp
  qed
  have d: "?x / 2 powr real_of_int (53 - 52) = of_int m + 1 / 2"
    by (simp add: field_simps)
  have r: "rne (?x / 2 powr real_of_int (53 - 52)) = m"
    unfolding d by (rule rne_tie_even[OF ev])
  have y: "real_of_int m * 2 powr real_of_int (53 - 52) = 2 * of_int m" by simp
  have "\<bar>2 * real_of_int m\<bar> < 2 ^ 54"
  proof -
    have "real_of_int m < of_int (2 ^ 53)" using m(2) by (simp only: of_int_less_iff)
    moreover have "0 \<le> real_of_int m" using m(1) by simp
    ultimately show ?thesis by simp
  qed
  also have "(2::real) ^ 54 \<le> 2 ^ 1024" by (rule power_increasing) simp_all
  finally have b: "\<not> overflow_threshold \<le> \<bar>2 * real_of_int m\<bar>"
    by (simp add: overflow_threshold_def)
  have nz: "?x \<noteq> 0" using pos by simp
  show ?thesis
    unfolding round_double_def Let_def q r y using b nz by simp
qed

lemma big_plus_one: "round_double (big + 1) = Fin big"
proof -
  have "round_double (2 * of_int (2 ^ 52) + 1) = Fin (2 * of_int (2 ^ 52))"
    by (rule round_tie) simp_all
  then show ?thesis by (simp add: big_def)
qed

lemma big_plus_two: "round_double (big + 2) = Fin (big + 2)"
proof -
  have "round_double (of_int (2 ^ 52 + 1) * 2 powr of_int 1) = Fin (of_int (2 ^ 52 + 1) * 2 powr of_int 1)"
  proof (rule round_double_exact[where m = "2 ^ 52 + 1" and e = 1])
    show "\<bar>2 ^ 52 + 1 :: int\<bar> < 2 ^ 53" by simp
    have "\<bar>real_of_int (2 ^ 52 + 1) * 2 powr real_of_int 1\<bar> < 2 ^ 54" by simp
    also have "(2::real) ^ 54 \<le> 2 ^ 1024" by (rule power_increasing) simp_all
    finally show "\<bar>real_of_int (2 ^ 52 + 1) * 2 powr real_of_int 1\<bar> < overflow_threshold"
      by (simp only: overflow_threshold_def)
  qed simp_all
  then show ?thesis by (simp add: big_def)
qed

lemma big_neq: "big + 2 \<noteq> big" "big \<noteq> 0" "0 < big"
  by (simp_all add: big_def)







subsection \<open>Structure of the methods\<close>

lemma grad_of_simp: "grad_of (p, g, s) = g"
  by (simp add: grad_of_def)


lemma setup_loop_eq:
  "setup_loop hk h pgs acc = acc @ map (\<lambda>(p, g). (p, g, init_state hk (h p) (h g))) pgs"
  by (induction pgs arbitrary: acc) auto

lemma setup_tuples_eq:
  "setup' hk (params, grads) self h =
     (Inr (), self\<lparr>t := Some 0,
        tuples := Some (map (\<lambda>(p, g). (p, g, init_state hk (h p) (h g))) (zip params grads))\<rparr>, h)"
  by (simp add: setup'_def setup_loop_eq)

lemma update_one_base: "update_one Optimizer n param grad state = Inl NotImplementedError"
  by (simp add: update_one_def Optimizer_def)

lemma update_first_raises:
  assumes "t self = Some n" and "tuples self = Some ((p, g, s) # ts)"
    and "update_one hk (n + 1) (h p) (h g) s = Inl e"
  shows "update hk self h = (Inl e, self\<lparr>t := Some (n + 1)\<rparr>, h)"
  using assms by (simp add: update_def Let_def)





lemma sqnorm_eq: "sqnorm x = dot x x"
  by (simp add: sqnorm_def ravel_def)

lemma sqnorm_loop_eq:
  "sqnorm_loop ts h acc = foldl fadd acc (map (\<lambda>tp. dot (h (grad_of tp)) (h (grad_of tp))) ts)"
proof (induction ts arbitrary: acc)
  case Nil
  show ?case by simp
next
  case (Cons tp ts)
  obtain p g s where tp: "tp = (p, g, s)" by (cases tp) auto
  have "sqnorm_loop (tp # ts) h acc = sqnorm_loop ts h (fadd acc (dot (h g) (h g)))"
    by (simp add: tp sqnorm_eq)
  also have "\<dots> = foldl fadd (fadd acc (dot (h g) (h g)))
      (map (\<lambda>tp. dot (h (grad_of tp)) (h (grad_of tp))) ts)"
    by (rule Cons.IH)
  finally show ?case by (simp add: tp grad_of_simp)
qed




lemma compute_grads_norm_eq:
  assumes "tuples self = Some ts"
  shows "compute_grads_norm self h = (math_sqrt (sqsum ts h), self, h)"
  using assms by (simp add: compute_grads_norm_def sqnorm_loop_eq sqsum_def)

text \<open>\<^verbatim>\<open>zero_grads\<close>: the store after the loop, address by address.\<close>

lemma zero_grads_loop_eq:
  "zero_grads_loop ts h a = (if a \<in> grad_of ` set ts then fill (h a) (Fin 0) else h a)"
proof (induction ts arbitrary: h)
  case Nil
  show ?case by simp
next
  case (Cons tp ts)
  obtain p g s where tp: "tp = (p, g, s)" by (cases tp) auto
  have step: "zero_grads_loop (tp # ts) h = zero_grads_loop ts (h(g := fill (h g) (Fin 0)))"
    by (simp add: tp)
  have idem: "fill (fill (h g) (Fin 0)) (Fin 0) = fill (h g) (Fin 0)" by (simp add: fill_def)
  show ?case unfolding step Cons.IH using idem by (simp add: tp grad_of_simp)
qed

lemma dot_zeros:
  assumes "data x = replicate n (Fin 0)"
  shows "dot x x = Fin 0"
proof -
  have "foldl (\<lambda>acc (a, b). fadd acc (fmul a b)) (Fin 0)
      (zip (replicate n (Fin 0)) (replicate n (Fin 0))) = Fin 0"
    by (induction n) (simp_all add: round_zero)
  then show ?thesis by (simp add: dot_def assms)
qed

lemma sqsum_zero:
  assumes "\<And>tp. tp \<in> set ts \<Longrightarrow> \<exists>n. data (h (grad_of tp)) = replicate n (Fin 0)"
  shows "sqsum ts h = Fin 0"
proof -
  have m: "map (\<lambda>tp. dot (h (grad_of tp)) (h (grad_of tp))) ts = map (\<lambda>tp. Fin 0) ts"
  proof (rule map_cong[OF refl])
    fix tp assume "tp \<in> set ts"
    from assms[OF this] obtain n where "data (h (grad_of tp)) = replicate n (Fin 0)" by auto
    then show "dot (h (grad_of tp)) (h (grad_of tp)) = Fin 0" by (rule dot_zeros)
  qed
  have z: "foldl fadd (Fin 0) (map (\<lambda>tp. Fin 0) ts) = Fin 0"
    by (induction ts) (simp_all add: round_zero)
  show ?thesis unfolding sqsum_def m by (rule z)
qed


subsection \<open>The example optimizer\<close>

lemma ex_opt_ready: "Ready ex_opt"
  by (simp add: Ready_def ex_opt_def)

lemma ex_opt_tuples: "tuples ex_opt = Some [(0, 1, ())]"
  by (simp add: ex_opt_def)


lemma ex_heap_1: "ex_heap (Suc 0) = np_array [3, 4]"
  by (simp add: ex_heap_def)

lemma fill_ex_heap_1: "fill (ex_heap (Suc 0)) (Fin 0) = np_array [0, 0]"
  by (simp add: ex_heap_1 fill_def np_array_def)

subsection \<open>Failing fast\<close>

text \<open>
  C3, as the spec states it: \<^verbatim>\<open>setup\<close> on parameter and gradient sequences of different
  lengths is a precondition violation, reported immediately. The code does not report
  it: \<^verbatim>\<open>zip\<close> stops at the shorter sequence and \<^verbatim>\<open>setup\<close> returns normally. Here two
  parameters and one gradient give an optimizer with one tuple.
\<close>

theorem setup_mismatch_counterexample:
  "length [0::nat, 2] \<noteq> length [1::nat]
   \<and> fst (setup' Optimizer ([0, 2], [1]) Unconfigured ex_heap) = Inr ()
   \<and> tuples (fst (snd (setup' Optimizer ([0, 2], [1]) Unconfigured ex_heap))) = Some [(0, 1, ())]"
  by (simp add: setup_tuples_eq Unconfigured_def)

text \<open>
  C3, amended: every operation other than \<^verbatim>\<open>setup\<close>, invoked before \<^verbatim>\<open>setup\<close>, fails
  at once with \<^verbatim>\<open>AttributeError\<close> and changes nothing (no recovery is attempted);
  \<^verbatim>\<open>setup\<close> on sequences of different lengths does not fail: it returns normally with
  the pairs up to the length of the shorter sequence, in order, and \<open>t = 0\<close>.
\<close>

theorem unconfigured_fails_setup_truncates:
  "zero_grads Unconfigured h = (Inl AttributeError, Unconfigured, h)
   \<and> compute_grads_norm Unconfigured h = (Inl AttributeError, Unconfigured, h)
   \<and> clip_grads maxnorm Unconfigured h = (Inl AttributeError, Unconfigured, h)
   \<and> weight_decay decay Unconfigured h = (Inl AttributeError, Unconfigured, h)
   \<and> accumulate_grads grads Unconfigured h = (Inl AttributeError, Unconfigured, h)
   \<and> update hk Unconfigured h = (Inl AttributeError, Unconfigured, h)
   \<and> (\<exists>ts. setup' hk (params, grads') self h
              = (Inr (), self\<lparr>t := Some 0, tuples := Some ts\<rparr>, h)
         \<and> length ts = min (length params) (length grads')
         \<and> map param_of ts = take (min (length params) (length grads')) params
         \<and> map grad_of ts = take (min (length params) (length grads')) grads')"
proof -
  let ?ts = "map (\<lambda>(p, g). (p, g, init_state hk (h p) (h g))) (zip params grads')"
  have 2: "map param_of ?ts = take (min (length params) (length grads')) params"
    by (simp add: param_of_def comp_def case_prod_unfold map_fst_zip_take)
  have 3: "map grad_of ?ts = take (min (length params) (length grads')) grads'"
    by (simp add: grad_of_def comp_def case_prod_unfold map_snd_zip_take)
  have 4: "\<exists>ts. setup' hk (params, grads') self h
              = (Inr (), self\<lparr>t := Some 0, tuples := Some ts\<rparr>, h)
         \<and> length ts = min (length params) (length grads')
         \<and> map param_of ts = take (min (length params) (length grads')) params
         \<and> map grad_of ts = take (min (length params) (length grads')) grads'"
    using setup_tuples_eq[of hk params grads' self h] 2 3 by (intro exI[of _ ?ts]) simp
  have 5: "zero_grads Unconfigured h = (Inl AttributeError, Unconfigured, h)"
    by (simp add: zero_grads_def Unconfigured_def)
  have 6: "compute_grads_norm Unconfigured h = (Inl AttributeError, Unconfigured, h)"
    by (simp add: compute_grads_norm_def Unconfigured_def)
  have 7: "clip_grads maxnorm Unconfigured h = (Inl AttributeError, Unconfigured, h)"
    by (simp add: clip_grads_def 6)
  have 8: "weight_decay decay Unconfigured h = (Inl AttributeError, Unconfigured, h)"
    by (simp add: weight_decay_def Unconfigured_def)
  have 9: "accumulate_grads grads Unconfigured h = (Inl AttributeError, Unconfigured, h)"
    by (simp add: accumulate_grads_def Unconfigured_def)
  have 10: "update hk Unconfigured h = (Inl AttributeError, Unconfigured, h)"
    by (simp add: update_def Unconfigured_def)
  show ?thesis using 4 5 6 7 8 9 10 by simp
qed

subsection \<open>The step counter\<close>

text \<open>
  C4: in the Ready state, a call of \<^verbatim>\<open>update\<close> leaves the step counter one higher than it
  found it (whether the update rules return or raise, and whatever rules a subclass
  supplies), and \<^verbatim>\<open>zero_grads\<close>, \<^verbatim>\<open>compute_grads_norm\<close>, \<^verbatim>\<open>clip_grads\<close>, \<^verbatim>\<open>weight_decay\<close>
  and \<^verbatim>\<open>accumulate_grads\<close> leave it as it was.
\<close>

theorem t_changes_only_in_update:
  assumes "Ready self" and "t self = Some n"
  shows "t (fst (snd (update hk self h))) = Some (n + 1)
    \<and> t (fst (snd (zero_grads self h))) = Some n
    \<and> t (fst (snd (compute_grads_norm self h))) = Some n
    \<and> t (fst (snd (clip_grads maxnorm self h))) = Some n
    \<and> t (fst (snd (weight_decay decay self h))) = Some n
    \<and> t (fst (snd (accumulate_grads grads self h))) = Some n"
proof -
  from assms obtain ts where ts: "tuples self = Some ts" by (auto simp: Ready_def)
  have 1: "t (fst (snd (update hk self h))) = Some (n + 1)"
    using assms ts by (simp add: update_def Let_def split: prod.splits option.splits)
  have 2: "t (fst (snd (zero_grads self h))) = Some n"
    using assms ts by (simp add: zero_grads_def)
  have 3: "compute_grads_norm self h = (math_sqrt (sqsum ts h), self, h)"
    using ts by (rule compute_grads_norm_eq)
  have 4: "t (fst (snd (clip_grads maxnorm self h))) = Some n"
    using assms ts by (simp add: clip_grads_def 3 split: sum.splits)
  have 5: "t (fst (snd (weight_decay decay self h))) = Some n"
    using assms ts by (simp add: weight_decay_def split: prod.splits option.splits)
  have 6: "t (fst (snd (accumulate_grads grads self h))) = Some n"
    using assms ts by (simp add: accumulate_grads_def split: prod.splits option.splits)
  show ?thesis using 1 2 3 4 5 6 assms by simp
qed

theorem t_changes_only_in_update_witness:
  "Ready ex_opt \<and> t ex_opt = Some 0
   \<and> t (fst (snd (update Optimizer ex_opt ex_heap))) = Some 1
   \<and> fst (update ex_descent ex_opt ex_heap) = Inr ()
   \<and> t (fst (snd (update ex_descent ex_opt ex_heap))) = Some 1
   \<and> t (fst (snd (zero_grads ex_opt ex_heap))) = Some 0
   \<and> t (fst (snd (compute_grads_norm ex_opt ex_heap))) = Some 0
   \<and> t (fst (snd (clip_grads (Fin (5 / 2)) ex_opt ex_heap))) = Some 0
   \<and> t (fst (snd (weight_decay (Fin (1 / 8)) ex_opt ex_heap))) = Some 0
   \<and> t (fst (snd (accumulate_grads [2] ex_opt ex_heap))) = Some 0"
proof -
  have n: "t ex_opt = Some 0" by (simp add: ex_opt_def)
  have ok: "fst (update ex_descent ex_opt ex_heap) = Inr ()"
    by (simp add: update_def ex_opt_def update_one_def ex_descent_def)
  from t_changes_only_in_update[OF ex_opt_ready n, of Optimizer ex_heap "Fin (5 / 2)" "Fin (1 / 8)" "[2]"]
    t_changes_only_in_update[OF ex_opt_ready n, of ex_descent ex_heap "Fin (5 / 2)" "Fin (1 / 8)" "[2]"] ex_opt_ready n ok
  show ?thesis by simp
qed

subsection \<open>\<^verbatim>\<open>setup\<close>\<close>

text \<open>
  C5: for parameter and gradient sequences of equal length, \<^verbatim>\<open>setup\<close> returns normally
  and leaves an optimizer with as many tuples as the input has pairs, whose parameters
  and gradients are the input sequences in their order, whose states are the initial
  states of the pairs, and with \<open>t = 0\<close>; the store is untouched.
\<close>

theorem setup_triples:
  assumes "length params = length grads"
  shows "\<exists>ts. setup' hk (params, grads) self h
            = (Inr (), self\<lparr>t := Some 0, tuples := Some ts\<rparr>, h)
     \<and> length ts = length params
     \<and> map param_of ts = params \<and> map grad_of ts = grads
     \<and> map (\<lambda>tp. snd (snd tp)) ts = map2 (\<lambda>p g. init_state hk (h p) (h g)) params grads"
proof -
  let ?ts = "map (\<lambda>(p, g). (p, g, init_state hk (h p) (h g))) (zip params grads)"
  have 1: "length ?ts = length params" using assms by simp
  have 2: "map param_of ?ts = params" using assms
    by (simp add: param_of_def comp_def case_prod_unfold)
  have 3: "map grad_of ?ts = grads" using assms
    by (simp add: grad_of_def comp_def case_prod_unfold)
  have 4: "map (\<lambda>tp. snd (snd tp)) ?ts = map2 (\<lambda>p g. init_state hk (h p) (h g)) params grads"
    by (simp add: comp_def case_prod_unfold)
  show ?thesis using setup_tuples_eq[of hk params grads self h] 1 2 3 4 by blast
qed

theorem setup_triples_witness:
  "length [0::nat, 2] = length [1::nat, 3]
   \<and> setup' Optimizer ([0, 2], [1, 3]) Unconfigured ex_heap
       = (Inr (), \<lparr>t = Some 0, tuples = Some [(0, 1, ()), (2, 3, ())]\<rparr>, ex_heap)"
  using setup_triples[of "[0, 2]" "[1, 3]" Optimizer Unconfigured ex_heap]
  by (simp add: setup_tuples_eq Unconfigured_def)

subsection \<open>The base update rule\<close>

text \<open>
  C9: \<^verbatim>\<open>update\<close> on the base optimizer (the update rules not overridden) in the Ready
  state with at least one tuple raises \<^verbatim>\<open>NotImplementedError\<close>, which is not an
  arithmetic error. The outcome is a function of the optimizer and the store.
\<close>

theorem base_update_not_implemented:
  assumes "Ready self" and "tuples self = Some ts" and "ts \<noteq> []"
  shows "fst (update Optimizer self h) = Inl NotImplementedError
    \<and> \<not> is_arithmetic_error NotImplementedError"
proof -
  from assms(1) obtain n where n: "t self = Some n" by (auto simp: Ready_def)
  from assms(3) obtain p g s ts' where ts': "ts = (p, g, s) # ts'"
    by (cases ts) auto
  show ?thesis
    using update_first_raises[OF n, of p g s ts' Optimizer h NotImplementedError] assms(2) ts'
    by (simp add: update_one_base)
qed

theorem base_update_not_implemented_witness:
  "Ready ex_opt \<and> tuples ex_opt = Some [(0, 1, ())] \<and> [(0::nat, 1::nat, ())] \<noteq> []
   \<and> fst (update Optimizer ex_opt ex_heap) = Inl NotImplementedError"
  using base_update_not_implemented[of ex_opt "[(0, 1, ())]" ex_heap]
  by (simp add: ex_opt_def Ready_def)

text \<open>
  C10: \<^verbatim>\<open>update\<close> increments \<open>t\<close> before it calls an update rule: the rule of the
  first tuple is called with the incremented counter, and when it raises, \<^verbatim>\<open>update\<close>
  ends with that exception, the store untouched and the optimizer changed in \<open>t\<close> alone,
  which is one higher. Whenever \<^verbatim>\<open>update\<close> raises, \<open>t\<close> is one higher than before.
  For the base optimizer with at least one tuple the exception is
  \<^verbatim>\<open>NotImplementedError\<close>.
\<close>

theorem failed_update_keeps_increment:
  assumes "t self = Some n" and "tuples self = Some ts"
  shows "(\<forall>e. fst (update hk self h) = Inl e
            \<longrightarrow> t (fst (snd (update hk self h))) = Some (n + 1))
    \<and> (\<forall>p g s ts' e. ts = (p, g, s) # ts' \<and> update_one hk (n + 1) (h p) (h g) s = Inl e
          \<longrightarrow> update hk self h = (Inl e, self\<lparr>t := Some (n + 1)\<rparr>, h))
    \<and> (ts \<noteq> []
          \<longrightarrow> update Optimizer self h = (Inl NotImplementedError, self\<lparr>t := Some (n + 1)\<rparr>, h))"
proof -
  have 1: "t (fst (snd (update hk self h))) = Some (n + 1)"
    using assms by (simp add: update_def Let_def split: prod.splits option.splits)
  have 2: "update hk self h = (Inl e, self\<lparr>t := Some (n + 1)\<rparr>, h)"
    if "ts = (p, g, s) # ts'" "update_one hk (n + 1) (h p) (h g) s = Inl e" for p g s ts' e
    using update_first_raises[OF assms(1), of p g s ts' hk h e] assms(2) that by simp
  have 3: "update Optimizer self h = (Inl NotImplementedError, self\<lparr>t := Some (n + 1)\<rparr>, h)"
    if "ts \<noteq> []"
  proof -
    from that obtain p g s ts' where ts': "ts = (p, g, s) # ts'" by (cases ts) auto
    show ?thesis
      using update_first_raises[OF assms(1), of p g s ts' Optimizer h NotImplementedError]
        assms(2) ts'
      by (simp add: update_one_base)
  qed
  show ?thesis using 1 2 3 by blast
qed

theorem failed_update_keeps_increment_witness:
  "t ex_opt = Some 0 \<and> tuples ex_opt = Some [(0, 1, ())]
   \<and> update Optimizer ex_opt ex_heap
       = (Inl NotImplementedError, \<lparr>t = Some 1, tuples = Some [(0, 1, ())]\<rparr>, ex_heap)"
  using failed_update_keeps_increment[of ex_opt 0 "[(0, 1, ())]" Optimizer ex_heap]
  by (simp add: ex_opt_def)

subsection \<open>\<^verbatim>\<open>zero_grads\<close>\<close>

text \<open>
  C8: in the Ready state \<^verbatim>\<open>zero_grads\<close> returns normally; afterwards every gradient
  buffer holds zeros only, with the length and the place it had, every address that is
  not a gradient of a tuple holds what it held, the optimizer is unchanged, and
  \<^verbatim>\<open>compute_grads_norm\<close> called next returns exactly 0.
\<close>

theorem zero_grads_zeroes:
  assumes "Ready self" and "tuples self = Some ts"
  shows "\<exists>h'. zero_grads self h = (Inr (), self, h')
      \<and> (\<forall>tp\<in>set ts. data (h' (grad_of tp)) = replicate (length (data (h (grad_of tp)))) (Fin 0)
              \<and> dev (h' (grad_of tp)) = dev (h (grad_of tp)))
      \<and> (\<forall>a. a \<notin> grad_of ` set ts \<longrightarrow> h' a = h a)
      \<and> compute_grads_norm self h' = (Inr (Fin 0), self, h')"
proof -
  let ?h' = "zero_grads_loop ts h"
  have 1: "zero_grads self h = (Inr (), self, ?h')"
    using assms(2) by (simp add: zero_grads_def)
  have 2: "data (?h' (grad_of tp)) = replicate (length (data (h (grad_of tp)))) (Fin 0)
              \<and> dev (?h' (grad_of tp)) = dev (h (grad_of tp))" if "tp \<in> set ts" for tp
    using that by (simp add: zero_grads_loop_eq fill_def)
  have 3: "?h' a = h a" if "a \<notin> grad_of ` set ts" for a
    using that by (simp add: zero_grads_loop_eq)
  have "sqsum ts ?h' = Fin 0"
    by (rule sqsum_zero) (use 2 in blast)
  then have 4: "compute_grads_norm self ?h' = (Inr (Fin 0), self, ?h')"
    using compute_grads_norm_eq[OF assms(2), of ?h'] by (simp add: round_zero)
  show ?thesis using 1 2 3 4 by blast
qed

theorem zero_grads_zeroes_witness:
  "Ready ex_opt \<and> tuples ex_opt = Some [(0, 1, ())]
   \<and> zero_grads ex_opt ex_heap
       = (Inr (), ex_opt, ex_heap(1 := np_array [0, 0]))
   \<and> compute_grads_norm ex_opt (ex_heap(1 := np_array [0, 0]))
       = (Inr (Fin 0), ex_opt, ex_heap(1 := np_array [0, 0]))"
proof -
  have z: "zero_grads ex_opt ex_heap
      = (Inr (), ex_opt, ex_heap(1 := np_array [0, 0]))"
    by (simp add: zero_grads_def ex_opt_tuples fill_ex_heap_1)
  from zero_grads_zeroes[OF ex_opt_ready ex_opt_tuples, of ex_heap] z
  have "compute_grads_norm ex_opt (ex_heap(1 := np_array [0, 0]))
       = (Inr (Fin 0), ex_opt, ex_heap(1 := np_array [0, 0]))"
    by auto
  with z ex_opt_ready ex_opt_tuples show ?thesis by simp
qed

subsection \<open>In-place additions\<close>

text \<open>Sequences of in-place additions: what they leave alone, what they leave in a
  buffer that is added into once, and that they keep the shapes.\<close>

lemma add_all_frame: "a \<notin> fst ` set us \<Longrightarrow> add_all us h a = h a"
proof (induction us arbitrary: h)
  case Nil
  show ?case by simp
next
  case (Cons u us)
  obtain g v where u: "u = (g, v)" by (cases u) auto
  from Cons.prems have "a \<noteq> g" and "a \<notin> fst ` set us" by (auto simp: u)
  then show ?case by (simp add: u Cons.IH add_into_def)
qed

lemma add_all_distinct:
  assumes "distinct (map fst us)" and "(g, v) \<in> set us"
  shows "add_all us h g = (h g)\<lparr>data := map2 fadd (data (h g)) v\<rparr>"
  using assms
proof (induction us arbitrary: h)
  case Nil
  then show ?case by simp
next
  case (Cons u us)
  obtain g' v' where u: "u = (g', v')" by (cases u) auto
  have step: "add_all (u # us) h = add_all us (add_into g' v' h)"
    by (simp add: u)
  from Cons.prems(1) have g': "g' \<notin> fst ` set us" and d: "distinct (map fst us)"
    by (simp_all add: u)
  show ?case
  proof (cases "(g, v) = u")
    case True
    then have gv: "g' = g" "v' = v" by (simp_all add: u)
    have "add_all us (add_into g v h) g = add_into g v h g"
      using g' by (intro add_all_frame) (simp add: gv)
    then show ?thesis by (simp add: step gv add_into_def)
  next
    case False
    with Cons.prems(2) have mem: "(g, v) \<in> set us" by auto
    then have "g \<in> fst ` set us" by force
    with g' have ne: "g \<noteq> g'" by auto
    have "add_all us (add_into g' v' h) g
        = (add_into g' v' h g)\<lparr>data := map2 fadd (data (add_into g' v' h g)) v\<rparr>"
      by (rule Cons.IH[OF d mem])
    then show ?thesis using ne by (simp add: step add_into_def)
  qed
qed

lemma add_all_shape:
  assumes "\<And>a. length (data (h a)) = sh a"
    and "\<And>g v. (g, v) \<in> set us \<Longrightarrow> length v = sh g"
  shows "length (data (add_all us h a)) = sh a"
  using assms
proof (induction us arbitrary: h)
  case Nil
  then show ?case by simp
next
  case (Cons u us)
  obtain g v where u: "u = (g, v)" by (cases u) auto
  have v: "length v = sh g" using Cons.prems(2)[of g v] by (simp add: u)
  have "length (data (add_into g v h b)) = sh b" for b
    using Cons.prems(1)[of b] Cons.prems(1)[of g] v by (simp add: add_into_def)
  moreover have "\<And>g v. (g, v) \<in> set us \<Longrightarrow> length v = sh g"
    using Cons.prems(2) by simp
  ultimately have "length (data (add_all us (add_into g v h) a)) = sh a"
    by (rule Cons.IH)
  then show ?case by (simp add: u)
qed


lemma add_all_zip_nth:
  assumes "distinct gs" and "length vs = length gs" and "i < length gs"
  shows "add_all (zip gs vs) h (gs ! i)
      = (h (gs ! i))\<lparr>data := map2 fadd (data (h (gs ! i))) (vs ! i)\<rparr>"
proof (rule add_all_distinct)
  show "distinct (map fst (zip gs vs))" using assms(1,2) by (simp add: map_fst_zip)
  have "zip gs vs ! i = (gs ! i, vs ! i)" using assms(2,3) by simp
  moreover have "i < length (zip gs vs)" using assms(2,3) by simp
  ultimately show "(gs ! i, vs ! i) \<in> set (zip gs vs)" by (metis nth_mem)
qed



text \<open>The loops of \<^verbatim>\<open>accumulate_grads\<close> and \<^verbatim>\<open>weight_decay\<close> as sequences of in-place
  additions, when the shapes agree and no source is written.\<close>

lemma iadd_ok:
  assumes "length (data x) = length (data (h g))"
  shows "iadd (h g) x = Inr (add_into g (data x) h g)"
  using assms by (simp add: iadd_def add_into_def)

lemma gpu_iadd_ok:
  assumes "length (data x) = length (data (h g))"
  shows "gpu_iadd (h g) x = Inr (add_into g (data x) h g)"
  using assms by (simp add: gpu_iadd_def add_into_def)

lemma add_into_upd: "h(g := add_into g v h g) = add_into g v h"
  by (simp add: add_into_def)

lemma data_transfer [simp]:
  "data (to_cpu x) = data x" "data (copy x d) = data x" "data (to_gpu c x) = data x"
  by (simp_all add: to_cpu_def copy_def to_gpu_def)

lemma accumulate_grads_loop_eq:
  assumes "list_all2 (\<lambda>tp src. sh src = sh (grad_of tp)) ts grads"
    and "\<And>a. length (data (h a)) = sh a"
    and "set grads \<inter> grad_of ` set ts = {}"
  shows "accumulate_grads_loop ts grads h
      = (None, add_all (zip (map grad_of ts) (map (\<lambda>a. data (h a)) grads)) h)"
  using assms
proof (induction ts grads arbitrary: h rule: list_all2_induct)
  case Nil
  show ?case by simp
next
  case (Cons tp ts src grads)
  obtain p g s where tp: "tp = (p, g, s)" by (cases tp) auto
  have len: "length (data (h src)) = length (data (h g))"
    using Cons.hyps(1) Cons.prems(1)[of g] Cons.prems(1)[of src] by (simp add: tp grad_of_simp)
  let ?h1 = "add_into g (data (h src)) h"
  have ok1: "iadd (h g) x = Inr (?h1 g)" if "data x = data (h src)" for x
    using iadd_ok[of x h g] len that by simp
  have ok2: "gpu_iadd (h g) x = Inr (?h1 g)" if "data x = data (h src)" for x
    using gpu_iadd_ok[of x h g] len that by simp
  have step: "accumulate_grads_loop (tp # ts) (src # grads) h = accumulate_grads_loop ts grads ?h1"
    by (simp add: tp ok1 ok2 add_into_upd)
  have sh1: "length (data (?h1 a)) = sh a" for a
    using Cons.prems(1)[of a] Cons.prems(1)[of g] len by (simp add: add_into_def)
  have disj: "set grads \<inter> grad_of ` set ts = {}"
    using Cons.prems(2) by auto
  have same: "?h1 a = h a" if "a \<in> set grads" for a
  proof -
    have "a \<noteq> g" using Cons.prems(2) that by (auto simp: tp grad_of_simp)
    then show ?thesis by (simp add: add_into_def)
  qed
  have "accumulate_grads_loop ts grads ?h1
      = (None, add_all (zip (map grad_of ts) (map (\<lambda>a. data (?h1 a)) grads)) ?h1)"
    by (rule Cons.IH[OF sh1 disj])
  also have "map (\<lambda>a. data (?h1 a)) grads = map (\<lambda>a. data (h a)) grads"
    by (rule map_cong[OF refl]) (simp add: same)
  finally show ?case unfolding step by (simp add: tp grad_of_simp)
qed


lemma accumulate_grads_eq:
  assumes "tuples self = Some ts"
    and "list_all2 (\<lambda>tp src. sh src = sh (grad_of tp)) ts grads"
    and "\<And>a. length (data (h a)) = sh a"
    and "set grads \<inter> grad_of ` set ts = {}"
  shows "accumulate_grads grads self h
      = (Inr (), self, add_all (zip (map grad_of ts) (map (\<lambda>a. data (h a)) grads)) h)"
  using assms(1) accumulate_grads_loop_eq[of sh ts grads h, OF assms(2) assms(3) assms(4)]
  by (simp add: accumulate_grads_def)


subsection \<open>\<^verbatim>\<open>compute_grads_norm\<close>\<close>






















subsection \<open>\<^verbatim>\<open>clip_grads\<close>\<close>











subsection \<open>The concrete scenario of \<^verbatim>\<open>clip_grads\<close>\<close>






subsection \<open>Overflow and a shared gradient\<close>














subsection \<open>\<^verbatim>\<open>accumulate_grads\<close>\<close>

lemma big_heap_at:
  "big_heap 0 = np_array [1]" "big_heap (Suc 0) = np_array [big]" "big_heap 2 = np_array [1]"
  "big_heap 3 = np_array [1]" "big_heap 4 = np_array [2]"
  by (simp_all add: big_heap_def)

lemma alias_heap_at:
  "alias_heap 0 = np_array [1, 2]" "alias_heap (Suc 0) = np_array [3, 4]"
  "alias_heap 2 = np_array [1, 1]" "alias_heap 3 = np_array [4, 5]"
  by (simp_all add: alias_heap_def)

lemma ex_heap_at:
  "ex_heap 2 = np_array [1, 1]" "ex_heap 3 = gpu_array [10, 20]" "ex_heap 4 = np_array [11, 21]"
  by (simp_all add: ex_heap_def)

lemma np_array_host: "is_numpy_ndarray (np_array xs)" "\<not> is_GPUArray (np_array xs)"
  by (simp_all add: is_numpy_ndarray_def is_GPUArray_def np_array_def)

lemma to_cpu_np: "to_cpu (np_array xs) = np_array xs"
  by (simp add: to_cpu_def np_array_def)

lemma iadd_np:
  "length xs = length ys \<Longrightarrow>
     iadd (np_array xs) (np_array ys) = Inr \<lparr>dev = Host, data = map2 fadd (map Fin xs) (map Fin ys)\<rparr>"
  by (simp add: iadd_def np_array_def)

lemma accumulate_one:
  assumes "h g = np_array xs" and "h a = np_array ys" and "length xs = length ys"
  shows "accumulate_grads [a] \<lparr>t = n, tuples = Some [(p, g, ())]\<rparr> h
      = (Inr (), \<lparr>t = n, tuples = Some [(p, g, ())]\<rparr>,
         h(g := \<lparr>dev = Host, data = map2 fadd (map Fin xs) (map Fin ys)\<rparr>))"
  using assms by (simp add: accumulate_grads_def np_array_host to_cpu_np iadd_np)

lemma acc_big_2: "accumulate_grads [2] ex_opt big_heap = (Inr (), ex_opt, big_heap)"
proof -
  have e: "accumulate_grads [2] ex_opt big_heap
      = (Inr (), ex_opt, big_heap(Suc 0 := \<lparr>dev = Host, data = map2 fadd (map Fin [big]) (map Fin [1])\<rparr>))"
    unfolding ex_opt_def using accumulate_one[of big_heap "Suc 0" "[big]" 2 "[1]" "Some 0" 0]
    by (simp add: big_heap_at)
  have x: "\<lparr>dev = Host, data = map2 fadd (map Fin [big]) (map Fin [1])\<rparr> = big_heap (Suc 0)"
    by (simp add: big_plus_one big_heap_at np_array_def)
  show ?thesis using e unfolding x by simp
qed

lemma acc_big_3: "accumulate_grads [3] ex_opt big_heap = (Inr (), ex_opt, big_heap)"
proof -
  have e: "accumulate_grads [3] ex_opt big_heap
      = (Inr (), ex_opt, big_heap(Suc 0 := \<lparr>dev = Host, data = map2 fadd (map Fin [big]) (map Fin [1])\<rparr>))"
    unfolding ex_opt_def using accumulate_one[of big_heap "Suc 0" "[big]" 3 "[1]" "Some 0" 0]
    by (simp add: big_heap_at)
  have x: "\<lparr>dev = Host, data = map2 fadd (map Fin [big]) (map Fin [1])\<rparr> = big_heap (Suc 0)"
    by (simp add: big_plus_one big_heap_at np_array_def)
  show ?thesis using e unfolding x by simp
qed

lemma acc_big_4:
  "accumulate_grads [4] ex_opt big_heap = (Inr (), ex_opt, big_heap(1 := np_array [big + 2]))"
proof -
  have e: "accumulate_grads [4] ex_opt big_heap
      = (Inr (), ex_opt, big_heap(Suc 0 := \<lparr>dev = Host, data = map2 fadd (map Fin [big]) (map Fin [2])\<rparr>))"
    unfolding ex_opt_def using accumulate_one[of big_heap "Suc 0" "[big]" 4 "[2]" "Some 0" 0]
    by (simp add: big_heap_at)
  have x: "\<lparr>dev = Host, data = map2 fadd (map Fin [big]) (map Fin [2])\<rparr> = np_array [big + 2]"
    by (simp add: big_plus_two np_array_def)
  show ?thesis using e unfolding x by simp
qed

lemma acc_alias_2:
  "accumulate_grads [2] ex_opt alias_heap = (Inr (), ex_opt, alias_heap(1 := np_array [4, 5]))"
proof -
  have e: "accumulate_grads [2] ex_opt alias_heap
      = (Inr (), ex_opt, alias_heap(Suc 0 := \<lparr>dev = Host, data = map2 fadd (map Fin [3, 4]) (map Fin [1, 1])\<rparr>))"
    unfolding ex_opt_def using accumulate_one[of alias_heap "Suc 0" "[3, 4]" 2 "[1, 1]" "Some 0" 0]
    by (simp add: alias_heap_at)
  have x: "\<lparr>dev = Host, data = map2 fadd (map Fin [3, 4]) (map Fin [1, 1])\<rparr> = np_array [4, 5]"
    by (simp add: round_small np_array_def)
  show ?thesis using e unfolding x by simp
qed

lemma acc_alias_self:
  "accumulate_grads [1] ex_opt (alias_heap(1 := np_array [4, 5]))
     = (Inr (), ex_opt, alias_heap(1 := np_array [8, 10]))"
proof -
  have e: "accumulate_grads [Suc 0] ex_opt (alias_heap(Suc 0 := np_array [4, 5]))
      = (Inr (), ex_opt, (alias_heap(Suc 0 := np_array [4, 5]))
           (Suc 0 := \<lparr>dev = Host, data = map2 fadd (map Fin [4, 5]) (map Fin [4, 5])\<rparr>))"
    unfolding ex_opt_def
    using accumulate_one[of "alias_heap(Suc 0 := np_array [4, 5])" "Suc 0" "[4, 5]" "Suc 0" "[4, 5]" "Some 0" 0]
    by simp
  have x: "\<lparr>dev = Host, data = map2 fadd (map Fin [4, 5]) (map Fin [4, 5])\<rparr> = np_array [8, 10]"
    by (simp add: round_small np_array_def)
  show ?thesis using e unfolding x by simp
qed

lemma acc_alias_3:
  "accumulate_grads [3] ex_opt alias_heap = (Inr (), ex_opt, alias_heap(1 := np_array [7, 9]))"
proof -
  have e: "accumulate_grads [3] ex_opt alias_heap
      = (Inr (), ex_opt, alias_heap(Suc 0 := \<lparr>dev = Host, data = map2 fadd (map Fin [3, 4]) (map Fin [4, 5])\<rparr>))"
    unfolding ex_opt_def using accumulate_one[of alias_heap "Suc 0" "[3, 4]" 3 "[4, 5]" "Some 0" 0]
    by (simp add: alias_heap_at)
  have x: "\<lparr>dev = Host, data = map2 fadd (map Fin [3, 4]) (map Fin [4, 5])\<rparr> = np_array [7, 9]"
    by (simp add: round_small np_array_def)
  show ?thesis using e unfolding x by simp
qed

text \<open>
  C6, as the spec states it: \<^verbatim>\<open>accumulate_grads(A)\<close> followed by \<^verbatim>\<open>accumulate_grads(B)\<close>
  leaves the gradient buffers that one call with the element-wise sums of \<open>A\<close> and \<open>B\<close>
  leaves. The additions are rounded, and floating-point addition is not associative:
  with the gradient \<open>[2 ^ 53]\<close> and the sources \<open>[1]\<close> and \<open>[1]\<close>, each of the two calls
  leaves \<open>[2 ^ 53]\<close> (the sum \<open>2 ^ 53 + 1\<close> is rounded back), and the one call with the
  sum \<open>[2]\<close> leaves \<open>[2 ^ 53 + 2]\<close>. The sources are array objects, too: when the second
  source is the optimizer's own gradient buffer \<open>[3, 4]\<close> and the first is \<open>[1, 1]\<close>, the
  second call reads the buffer after the first addition and leaves \<open>[8, 10]\<close>, where the
  sum \<open>[4, 5]\<close> of the two sources, taken beforehand, gives \<open>[7, 9]\<close>.
\<close>

theorem accumulate_grads_counterexample:
  "Ready ex_opt \<and> big_heap 1 = np_array [big] \<and> is_double big
   \<and> map2 fadd (data (big_heap 2)) (data (big_heap 3)) = data (big_heap 4)
   \<and> accumulate_grads [2] ex_opt big_heap = (Inr (), ex_opt, big_heap)
   \<and> accumulate_grads [3] ex_opt big_heap = (Inr (), ex_opt, big_heap)
   \<and> accumulate_grads [4] ex_opt big_heap = (Inr (), ex_opt, big_heap(1 := np_array [big + 2]))
   \<and> big_heap(1 := np_array [big + 2]) \<noteq> big_heap
   \<and> map2 fadd (data (alias_heap 2)) (data (alias_heap 1)) = data (alias_heap 3)
   \<and> accumulate_grads [2] ex_opt alias_heap
       = (Inr (), ex_opt, alias_heap(1 := np_array [4, 5]))
   \<and> accumulate_grads [1] ex_opt (alias_heap(1 := np_array [4, 5]))
       = (Inr (), ex_opt, alias_heap(1 := np_array [8, 10]))
   \<and> accumulate_grads [3] ex_opt alias_heap
       = (Inr (), ex_opt, alias_heap(1 := np_array [7, 9]))
   \<and> alias_heap(1 := np_array [8, 10]) \<noteq> alias_heap(1 := np_array [7, 9])"
proof -
  have a: "big_heap 1 = np_array [big]" using big_heap_at(2) by simp
  have b: "is_double big" using big_double by (simp add: is_double_def)
  have c: "map2 fadd (data (big_heap 2)) (data (big_heap 3)) = data (big_heap 4)"
    by (simp add: big_heap_at np_array_def round_small)
  have d: "big_heap(1 := np_array [big + 2]) \<noteq> big_heap"
  proof
    assume "big_heap(1 := np_array [big + 2]) = big_heap"
    then have "(big_heap(1 := np_array [big + 2])) 1 = big_heap 1" by (rule arg_cong)
    then show False using big_neq(1) by (simp add: big_heap_at np_array_def)
  qed
  have e: "map2 fadd (data (alias_heap 2)) (data (alias_heap 1)) = data (alias_heap 3)"
    by (simp add: alias_heap_at np_array_def round_small)
  have f: "alias_heap(1 := np_array [8, 10]) \<noteq> alias_heap(1 := np_array [7, 9])"
  proof
    assume "alias_heap(1 := np_array [8, 10]) = alias_heap(1 := np_array [7, 9])"
    then have "(alias_heap(1 := np_array [8, 10])) 1 = (alias_heap(1 := np_array [7, 9])) 1"
      by (rule arg_cong)
    then show False by (simp add: np_array_def)
  qed
  show ?thesis
    using ex_opt_ready a b c acc_big_2 acc_big_3 acc_big_4 d e acc_alias_2 acc_alias_self
      acc_alias_3 f
    by simp
qed

text \<open>
  C6, amended: for every optimizer in the Ready state and source sequences \<open>A\<close> and \<open>B\<close>
  matched with the tuples (as many sources as tuples, each source of the shape of its
  gradient buffer), none of which is a gradient buffer of the optimizer,
  \<^verbatim>\<open>accumulate_grads\<close> returns normally and adds each source into its gradient buffer in
  place, element by element in floating point and with no scaling; no other buffer
  changes. When the gradient buffers are pairwise distinct, the two calls leave
  \<open>(g + a) + b\<close> in each gradient buffer and one call with the sums \<open>a + b\<close> (sources \<open>S\<close>
  that are not gradient buffers either) leaves \<open>g + (a + b)\<close>, every \<open>+\<close> rounded; the two
  need not be equal.
\<close>

theorem accumulate_grads_adds:
  assumes "Ready self" and "tuples self = Some ts"
    and "length A = length ts" and "length B = length ts" and "length S = length ts"
    and "\<forall>i<length ts.
           length (data (h (A ! i))) = length (data (h (grad_of (ts ! i))))
         \<and> length (data (h (B ! i))) = length (data (h (grad_of (ts ! i))))
         \<and> data (h (S ! i)) = map2 fadd (data (h (A ! i))) (data (h (B ! i)))"
    and "(set A \<union> set B \<union> set S) \<inter> grad_of ` set ts = {}"
  shows "\<exists>h1 h2 h3.
       accumulate_grads A self h = (Inr (), self, h1)
     \<and> accumulate_grads B self h1 = (Inr (), self, h2)
     \<and> accumulate_grads S self h = (Inr (), self, h3)
     \<and> h1 = add_all (zip (map grad_of ts) (map (\<lambda>a. data (h a)) A)) h
     \<and> h2 = add_all (zip (map grad_of ts) (map (\<lambda>a. data (h a)) B)) h1
     \<and> h3 = add_all (zip (map grad_of ts) (map (\<lambda>a. data (h a)) S)) h
     \<and> (\<forall>a. a \<notin> grad_of ` set ts \<longrightarrow> h1 a = h a \<and> h2 a = h a \<and> h3 a = h a)
     \<and> (distinct (map grad_of ts) \<longrightarrow> (\<forall>i<length ts.
          data (h1 (grad_of (ts ! i)))
            = map2 fadd (data (h (grad_of (ts ! i)))) (data (h (A ! i)))
        \<and> data (h2 (grad_of (ts ! i)))
            = map2 fadd (map2 fadd (data (h (grad_of (ts ! i)))) (data (h (A ! i))))
                (data (h (B ! i)))
        \<and> data (h3 (grad_of (ts ! i)))
            = map2 fadd (data (h (grad_of (ts ! i))))
                (map2 fadd (data (h (A ! i))) (data (h (B ! i))))))"
proof -
  define sh where "sh a = length (data (h a))" for a
  let ?gs = "map grad_of ts"
  let ?G = "grad_of ` set ts"
  define h1 where "h1 = add_all (zip ?gs (map (\<lambda>a. data (h a)) A)) h"
  define h2 where "h2 = add_all (zip ?gs (map (\<lambda>a. data (h a)) B)) h1"
  define h3 where "h3 = add_all (zip ?gs (map (\<lambda>a. data (h a)) S)) h"
  have shh: "length (data (h a)) = sh a" for a by (simp add: sh_def)
  have mA: "list_all2 (\<lambda>tp src. sh src = sh (grad_of tp)) ts A"
    using assms(3,6) by (simp add: list_all2_conv_all_nth sh_def)
  have mB: "list_all2 (\<lambda>tp src. sh src = sh (grad_of tp)) ts B"
    using assms(4,6) by (simp add: list_all2_conv_all_nth sh_def)
  have mS: "list_all2 (\<lambda>tp src. sh src = sh (grad_of tp)) ts S"
    using assms(3,4,5,6) by (simp add: list_all2_conv_all_nth sh_def)
  have dA: "set A \<inter> ?G = {}" and dB: "set B \<inter> ?G = {}" and dS: "set S \<inter> ?G = {}"
    using assms(7) by auto
  have fr1: "h1 a = h a" if "a \<notin> ?G" for a
    unfolding h1_def by (rule add_all_frame) (use that in \<open>auto dest: set_zip_leftD\<close>)
  have fr2: "h2 a = h a" if "a \<notin> ?G" for a
  proof -
    have "h2 a = h1 a"
      unfolding h2_def by (rule add_all_frame) (use that in \<open>auto dest: set_zip_leftD\<close>)
    then show ?thesis using fr1[OF that] by simp
  qed
  have fr3: "h3 a = h a" if "a \<notin> ?G" for a
    unfolding h3_def by (rule add_all_frame) (use that in \<open>auto dest: set_zip_leftD\<close>)
  have sh1: "length (data (h1 a)) = sh a" for a
    unfolding h1_def
  proof (rule add_all_shape[OF shh])
    fix g v assume "(g, v) \<in> set (zip ?gs (map (\<lambda>a. data (h a)) A))"
    then obtain i where i: "i < length ts" "g = ?gs ! i" "v = map (\<lambda>a. data (h a)) A ! i"
      using assms(3) by (auto simp: in_set_zip)
    then show "length v = sh g" using assms(3,6) by (simp add: sh_def)
  qed
  have c1: "accumulate_grads A self h = (Inr (), self, h1)"
    unfolding h1_def by (rule accumulate_grads_eq[OF assms(2) mA shh dA])
  have "accumulate_grads B self h1
      = (Inr (), self, add_all (zip ?gs (map (\<lambda>a. data (h1 a)) B)) h1)"
    by (rule accumulate_grads_eq[OF assms(2) mB sh1 dB])
  moreover have "map (\<lambda>a. data (h1 a)) B = map (\<lambda>a. data (h a)) B"
  proof (rule map_cong[OF refl])
    fix a assume "a \<in> set B"
    then have "a \<notin> ?G" using dB by auto
    then show "data (h1 a) = data (h a)" by (simp add: fr1)
  qed
  ultimately have c2: "accumulate_grads B self h1 = (Inr (), self, h2)"
    by (simp add: h2_def)
  have c3: "accumulate_grads S self h = (Inr (), self, h3)"
    unfolding h3_def by (rule accumulate_grads_eq[OF assms(2) mS shh dS])
  have pw: "data (h1 (grad_of (ts ! i)))
            = map2 fadd (data (h (grad_of (ts ! i)))) (data (h (A ! i)))
        \<and> data (h2 (grad_of (ts ! i)))
            = map2 fadd (map2 fadd (data (h (grad_of (ts ! i)))) (data (h (A ! i))))
                (data (h (B ! i)))
        \<and> data (h3 (grad_of (ts ! i)))
            = map2 fadd (data (h (grad_of (ts ! i))))
                (map2 fadd (data (h (A ! i))) (data (h (B ! i))))"
    if d: "distinct ?gs" and i: "i < length ts" for i
  proof -
    have gi: "?gs ! i = grad_of (ts ! i)" using i by simp
    have il: "i < length ?gs" using i by simp
    have e1: "h1 (?gs ! i)
        = (h (?gs ! i))\<lparr>data := map2 fadd (data (h (?gs ! i))) (map (\<lambda>a. data (h a)) A ! i)\<rparr>"
      unfolding h1_def by (rule add_all_zip_nth[OF d _ il]) (simp add: assms(3))
    have e2: "h2 (?gs ! i)
        = (h1 (?gs ! i))\<lparr>data := map2 fadd (data (h1 (?gs ! i))) (map (\<lambda>a. data (h a)) B ! i)\<rparr>"
      unfolding h2_def by (rule add_all_zip_nth[OF d _ il]) (simp add: assms(4))
    have e3: "h3 (?gs ! i)
        = (h (?gs ! i))\<lparr>data := map2 fadd (data (h (?gs ! i))) (map (\<lambda>a. data (h a)) S ! i)\<rparr>"
      unfolding h3_def by (rule add_all_zip_nth[OF d _ il]) (simp add: assms(5))
    have s: "data (h (S ! i)) = map2 fadd (data (h (A ! i))) (data (h (B ! i)))"
      using assms(6) i by simp
    have 1: "data (h1 (grad_of (ts ! i)))
        = map2 fadd (data (h (grad_of (ts ! i)))) (data (h (A ! i)))"
      using e1 i assms(3) unfolding gi by simp
    have 2: "data (h2 (grad_of (ts ! i)))
        = map2 fadd (data (h1 (grad_of (ts ! i)))) (data (h (B ! i)))"
      using e2 i assms(4) unfolding gi by simp
    have 3: "data (h3 (grad_of (ts ! i)))
        = map2 fadd (data (h (grad_of (ts ! i)))) (data (h (S ! i)))"
      using e3 i assms(5) unfolding gi by simp
    show ?thesis unfolding 2 3 s 1 by simp
  qed
  have "accumulate_grads A self h = (Inr (), self, h1)
     \<and> accumulate_grads B self h1 = (Inr (), self, h2)
     \<and> accumulate_grads S self h = (Inr (), self, h3)
     \<and> h1 = add_all (zip ?gs (map (\<lambda>a. data (h a)) A)) h
     \<and> h2 = add_all (zip ?gs (map (\<lambda>a. data (h a)) B)) h1
     \<and> h3 = add_all (zip ?gs (map (\<lambda>a. data (h a)) S)) h
     \<and> (\<forall>a. a \<notin> ?G \<longrightarrow> h1 a = h a \<and> h2 a = h a \<and> h3 a = h a)
     \<and> (distinct ?gs \<longrightarrow> (\<forall>i<length ts.
          data (h1 (grad_of (ts ! i)))
            = map2 fadd (data (h (grad_of (ts ! i)))) (data (h (A ! i)))
        \<and> data (h2 (grad_of (ts ! i)))
            = map2 fadd (map2 fadd (data (h (grad_of (ts ! i)))) (data (h (A ! i))))
                (data (h (B ! i)))
        \<and> data (h3 (grad_of (ts ! i)))
            = map2 fadd (data (h (grad_of (ts ! i))))
                (map2 fadd (data (h (A ! i))) (data (h (B ! i))))))"
    using c1 c2 c3 h1_def h2_def h3_def fr1 fr2 fr3 pw by blast
  then show ?thesis by blast
qed

theorem accumulate_grads_adds_witness:
  "Ready ex_opt \<and> tuples ex_opt = Some [(0, 1, ())]
   \<and> length (data (ex_heap 2)) = length (data (ex_heap 1))
   \<and> length (data (ex_heap 3)) = length (data (ex_heap 1))
   \<and> data (ex_heap 4) = map2 fadd (data (ex_heap 2)) (data (ex_heap 3))
   \<and> (set [2] \<union> set [3] \<union> set [4]) \<inter> grad_of ` set [(0::nat, 1::nat, ())] = {}
   \<and> accumulate_grads [2] ex_opt ex_heap = (Inr (), ex_opt, ex_heap(1 := np_array [4, 5]))
   \<and> accumulate_grads [3] ex_opt (ex_heap(1 := np_array [4, 5]))
       = (Inr (), ex_opt, ex_heap(1 := np_array [14, 25]))
   \<and> accumulate_grads [4] ex_opt ex_heap = (Inr (), ex_opt, ex_heap(1 := np_array [14, 25]))"
proof -
  have l: "length [2::nat] = length [(0::nat, 1::nat, ())]"
    "length [3::nat] = length [(0::nat, 1::nat, ())]"
    "length [4::nat] = length [(0::nat, 1::nat, ())]" by simp_all
  have a: "length (data (ex_heap 2)) = length (data (ex_heap 1))"
    by (simp add: ex_heap_1 ex_heap_at np_array_def)
  have b: "length (data (ex_heap 3)) = length (data (ex_heap 1))"
    by (simp add: ex_heap_1 ex_heap_at np_array_def gpu_array_def)
  have c: "data (ex_heap 4) = map2 fadd (data (ex_heap 2)) (data (ex_heap 3))"
    by (simp add: ex_heap_at np_array_def gpu_array_def round_small)
  have m: "\<forall>i<length [(0::nat, 1::nat, ())].
           length (data (ex_heap ([2] ! i))) = length (data (ex_heap (grad_of ([(0, 1, ())] ! i))))
         \<and> length (data (ex_heap ([3] ! i))) = length (data (ex_heap (grad_of ([(0, 1, ())] ! i))))
         \<and> data (ex_heap ([4] ! i)) = map2 fadd (data (ex_heap ([2] ! i))) (data (ex_heap ([3] ! i)))"
    using a b c by (simp add: grad_of_simp)
  have d: "(set [2] \<union> set [3] \<union> set [4]) \<inter> grad_of ` set [(0::nat, 1::nat, ())] = {}"
    by (simp add: grad_of_simp)
  from accumulate_grads_adds[OF ex_opt_ready ex_opt_tuples l m d]
  obtain h1 h2 h3 where
      c1: "accumulate_grads [2] ex_opt ex_heap = (Inr (), ex_opt, h1)"
    and c2: "accumulate_grads [3] ex_opt h1 = (Inr (), ex_opt, h2)"
    and c3: "accumulate_grads [4] ex_opt ex_heap = (Inr (), ex_opt, h3)"
    and e1: "h1 = add_all (zip (map grad_of [(0::nat, 1::nat, ())]) (map (\<lambda>a. data (ex_heap a)) [2])) ex_heap"
    and e2: "h2 = add_all (zip (map grad_of [(0::nat, 1::nat, ())]) (map (\<lambda>a. data (ex_heap a)) [3])) h1"
    and e3: "h3 = add_all (zip (map grad_of [(0::nat, 1::nat, ())]) (map (\<lambda>a. data (ex_heap a)) [4])) ex_heap"
    by blast
  have v1: "h1 = ex_heap(1 := np_array [4, 5])"
    unfolding e1 by (simp add: grad_of_simp add_into_def ex_heap_1 ex_heap_at np_array_def round_small)
  have v2: "h2 = ex_heap(1 := np_array [14, 25])"
    unfolding e2 v1
    by (simp add: grad_of_simp add_into_def ex_heap_at np_array_def gpu_array_def round_small)
  have v3: "h3 = ex_heap(1 := np_array [14, 25])"
    unfolding e3 by (simp add: grad_of_simp add_into_def ex_heap_1 ex_heap_at np_array_def round_small)
  show ?thesis
    using ex_opt_ready ex_opt_tuples a b c d c1 c2 c3 unfolding v1 v2 v3 by simp
qed

subsection \<open>\<^verbatim>\<open>weight_decay\<close>\<close>












end
